theory Spec2Isabelle
  imports Complex_Main "HOL-Library.AList"
begin

section \<open>JavaScript strings\<close>

text \<open>
  A JavaScript string is a sequence of UTF-16 code units. The model covers the strings
  whose code units lie in the range 0..255 (Latin-1): a \<^typ>\<open>string\<close> is the list of
  these code units, and \<open>length\<close> is JavaScript's \<open>.length\<close>. In this range
  \<open>toLowerCase\<close> maps one code unit to one code unit, \<open>\w\<close> is \<open>[A-Za-z0-9_]\<close> and
  \<open>\s\<close> (as well as the characters \<open>trim\<close> strips) is TAB, LF, VT, FF, CR, SP and NBSP.
  JavaScript numbers are modelled by \<^typ>\<open>int\<close> (integral values only), array indices and
  lengths by \<^typ>\<open>nat\<close>.
\<close>

definition code_unit :: "char \<Rightarrow> nat" where
  "code_unit c = of_char c"

definition isWord :: "char \<Rightarrow> bool" where
  "isWord c = (let n = code_unit c in
     (48 \<le> n \<and> n \<le> 57) \<or> (65 \<le> n \<and> n \<le> 90) \<or> n = 95 \<or> (97 \<le> n \<and> n \<le> 122))"

definition isSpace :: "char \<Rightarrow> bool" where
  "isSpace c = (let n = code_unit c in (9 \<le> n \<and> n \<le> 13) \<or> n = 32 \<or> n = 160)"

definition lowerChar :: "char \<Rightarrow> char" where
  "lowerChar c = (let n = code_unit c in
     if (65 \<le> n \<and> n \<le> 90) \<or> (192 \<le> n \<and> n \<le> 222 \<and> n \<noteq> 215)
     then char_of (n + 32) else c)"

definition toLowerCase :: "string \<Rightarrow> string" where
  "toLowerCase s = map lowerChar s"

definition trim :: "string \<Rightarrow> string" where
  "trim s = rev (dropWhile isSpace (rev (dropWhile isSpace s)))"

text \<open>
  \<open>s.split(re)\<close> for a regular expression \<open>re\<close> that matches exactly the runs of at least
  \<open>k\<close> (\<open>k \<ge> 1\<close>) characters satisfying \<open>P\<close>, greedily: \<open>/\s+/\<close> is \<open>P = isSpace\<close>, \<open>k = 1\<close>
  and \<open>/\n\n+/\<close> is \<open>P = (\<lambda>c. c = CHR 0x0A)\<close>, \<open>k = 2\<close>. The pieces between the matches are
  returned, the empty ones at both ends included; \<open>cur\<close> is the piece being read.
\<close>

function splitRuns :: "(char \<Rightarrow> bool) \<Rightarrow> nat \<Rightarrow> string \<Rightarrow> string \<Rightarrow> string list" where
  "splitRuns P k cur [] = [cur]"
| "splitRuns P k cur (c # cs) =
     (if P c \<and> k \<le> length (takeWhile P (c # cs))
      then cur # splitRuns P k [] (dropWhile P cs)
      else splitRuns P k (cur @ [c]) cs)"
  by pat_completeness auto
termination
  by (relation "measure (\<lambda>(P, k, cur, s). length s)")
     (auto simp: length_dropWhile_le less_Suc_eq_le)

text \<open>\<open>s.split('\n')\<close>: every occurrence of the separator character ends a piece.\<close>

fun splitChar :: "char \<Rightarrow> string \<Rightarrow> string \<Rightarrow> string list" where
  "splitChar sep cur [] = [cur]"
| "splitChar sep cur (c # cs) =
     (if c = sep then cur # splitChar sep [] cs else splitChar sep (cur @ [c]) cs)"

text \<open>
  \<open>s.slice(b)\<close> and \<open>xs.slice(0, e)\<close> for integral \<open>b\<close> and \<open>e\<close>: a negative index counts
  from the end and is clamped at 0, a positive one is clamped at the length.
\<close>

definition sliceFrom :: "int \<Rightarrow> 'a list \<Rightarrow> 'a list" where
  "sliceFrom b xs =
     (if b < 0 then drop (nat (max (int (length xs) + b) 0)) xs else drop (nat b) xs)"

definition sliceTo :: "int \<Rightarrow> 'a list \<Rightarrow> 'a list" where
  "sliceTo e xs =
     (if e < 0 then take (nat (max (int (length xs) + e) 0)) xs else take (nat e) xs)"

text \<open>
  \<open>s.indexOf(t, from)\<close> for \<open>from \<ge> 0\<close>: the least position \<open>i \<ge> from\<close> at which \<open>t\<close>
  occurs in \<open>s\<close>; \<open>None\<close> stands for the result \<open>-1\<close>. The empty \<open>t\<close> occurs at every
  position up to the length, and \<open>from\<close> is clamped at the length.
\<close>

fun findFrom :: "string \<Rightarrow> string \<Rightarrow> nat \<Rightarrow> nat option" where
  "findFrom t [] i = (if t = [] then Some i else None)"
| "findFrom t (c # cs) i =
     (if take (length t) (c # cs) = t then Some i else findFrom t cs (Suc i))"

definition indexOf :: "string \<Rightarrow> string \<Rightarrow> nat \<Rightarrow> nat option" where
  "indexOf s t from = findFrom t (drop from s) (min from (length s))"

text \<open>The decimal digits of a non-negative integer, as a template literal prints it.\<close>

fun showNat :: "nat \<Rightarrow> string" where
  "showNat n =
     (if n < 10 then [char_of (48 + n)] else showNat (n div 10) @ [char_of (48 + n mod 10)])"

section \<open>Data model (types/index.ts)\<close>

datatype DocumentType = Text | Markdown | Code | Json | Html | Practice | StyleGuide

text \<open>
  The named fields of \<open>DocumentMetadata\<close>; an optional field is an \<open>option\<close>. Fields of
  \<open>Document\<close> carry the prefix \<open>doc_\<close> and those of \<open>SearchFilters\<close> the prefix \<open>f_\<close>,
  since a field name stands for one record only; \<open>chunk_id\<close> is the field \<open>id\<close> of
  \<open>DocumentChunk\<close>.
\<close>

record DocumentMetadata =
  source :: string
  path :: "string option"
  language :: "string option"
  version :: "string option"
  tags :: "string list option"
  createdAt :: "string option"
  updatedAt :: "string option"

record Document =
  doc_id :: string
  doc_type :: DocumentType
  doc_content :: string
  doc_title :: "string option"
  doc_metadata :: DocumentMetadata

record DocumentChunk =
  chunk_id :: string
  documentId :: string
  content :: string
  title :: "string option"
  startOffset :: int
  endOffset :: int
  metadata :: DocumentMetadata

record SearchResult =
  chunk :: DocumentChunk
  score :: real
  highlights :: "string list"

record SearchFilters =
  f_source :: "string option"
  f_type :: "DocumentType option"
  f_tags :: "string list option"
  f_language :: "string option"

section \<open>SearchIndex (utils/search.ts)\<close>

text \<open>
  A JavaScript \<open>Map\<close> is an association list in insertion order: \<open>get\<close> is \<^const>\<open>map_of\<close>,
  \<open>set\<close> is \<^const>\<open>AList.update\<close> (an existing key keeps its place, a new one goes to the
  end) and \<open>delete\<close> is \<^const>\<open>AList.delete\<close>. A \<open>Set\<close> of strings is the list of its
  members in insertion order.
\<close>

record SearchIndex =
  chunks :: "(string \<times> DocumentChunk) list"
  invertedIndex :: "(string \<times> string list) list"

definition newIndex :: SearchIndex where
  "newIndex = \<lparr>chunks = [], invertedIndex = []\<rparr>"

definition setAdd :: "string \<Rightarrow> string list \<Rightarrow> string list" where
  "setAdd x xs = (if x \<in> set xs then xs else xs @ [x])"

definition setDelete :: "string \<Rightarrow> string list \<Rightarrow> string list" where
  "setDelete x xs = removeAll x xs"

definition tokenize :: "string \<Rightarrow> string list" where
  "tokenize text =
     filter (\<lambda>token. length token > 2)
       (splitRuns isSpace 1 []
          (map (\<lambda>c. if isWord c \<or> isSpace c then c else CHR '' '') (toLowerCase text)))"

text \<open>One round of the loop of \<open>add\<close>: the token's set is created when missing, then extended.\<close>

definition addPosting :: "string \<Rightarrow> string \<Rightarrow> (string \<times> string list) list
    \<Rightarrow> (string \<times> string list) list" where
  "addPosting cid token ix =
     (case map_of ix token of
        None \<Rightarrow> AList.update token (setAdd cid []) ix
      | Some ids \<Rightarrow> AList.update token (setAdd cid ids) ix)"

definition add :: "DocumentChunk \<Rightarrow> SearchIndex \<Rightarrow> SearchIndex" where
  "add c idx =
     \<lparr>chunks = AList.update (chunk_id c) c (chunks idx),
      invertedIndex = fold (addPosting (chunk_id c)) (tokenize (content c)) (invertedIndex idx)\<rparr>"

text \<open>One round of the loop of \<open>remove\<close>: \<open>this.invertedIndex.get(token)?.delete(chunkId)\<close>.\<close>

definition deletePosting :: "string \<Rightarrow> string \<Rightarrow> (string \<times> string list) list
    \<Rightarrow> (string \<times> string list) list" where
  "deletePosting cid token ix =
     (case map_of ix token of
        None \<Rightarrow> ix
      | Some ids \<Rightarrow> AList.update token (setDelete cid ids) ix)"

text \<open>\<open>remove\<close> returns its boolean result together with the index it leaves.\<close>

definition remove :: "string \<Rightarrow> SearchIndex \<Rightarrow> bool \<times> SearchIndex" where
  "remove chunkId idx =
     (case map_of (chunks idx) chunkId of
        None \<Rightarrow> (False, idx)
      | Some c \<Rightarrow>
          (chunkId \<in> fst ` set (chunks idx),
           \<lparr>chunks = AList.delete chunkId (chunks idx),
            invertedIndex =
              fold (deletePosting chunkId) (tokenize (content c)) (invertedIndex idx)\<rparr>))"

definition count :: "SearchIndex \<Rightarrow> nat" where
  "count idx = length (chunks idx)"

definition clear :: "SearchIndex \<Rightarrow> SearchIndex" where
  "clear idx = \<lparr>chunks = [], invertedIndex = []\<rparr>"

text \<open>
  The \<open>while\<close> loop of \<open>getHighlights\<close> for one token: \<open>index\<close> is the position found
  last (\<open>None\<close> for \<open>-1\<close>), \<open>hs\<close> the snippets collected so far. Every round adds a snippet,
  so the bound of 3 on their number ends the loop.
\<close>

function highlightLoop ::
    "string \<Rightarrow> string \<Rightarrow> string \<Rightarrow> nat \<Rightarrow> nat option \<Rightarrow> string list \<Rightarrow> string list" where
  "highlightLoop text lowerContent token windowSize None hs = hs"
| "highlightLoop text lowerContent token windowSize (Some i) hs =
     (if length hs < 3 then
        (let start = nat (max 0 (int i - int windowSize));
             end' = min (length text) (i + length token + windowSize);
             snippet = take (end' - start) (drop start text);
             snippet1 = (if start > 0 then ''...'' @ snippet else snippet);
             snippet2 = (if end' < length text then snippet1 @ ''...'' else snippet1)
         in highlightLoop text lowerContent token windowSize
              (indexOf lowerContent token (i + 1)) (hs @ [snippet2]))
      else hs)"
  by pat_completeness auto
termination
  by (relation "measure (\<lambda>(text, lowerContent, token, windowSize, index, hs). 3 - length hs)")
     auto

definition getHighlights :: "string \<Rightarrow> string list \<Rightarrow> nat \<Rightarrow> string list" where
  "getHighlights text queryTokens windowSize =
     (let lowerContent = toLowerCase text
      in sliceTo 3
           (fold (\<lambda>token hs. highlightLoop text lowerContent token windowSize
                     (indexOf lowerContent token 0) hs)
              queryTokens []))"

text \<open>
  The scores of \<open>search\<close>, a \<open>Map\<close> from chunk ids to counts: for one query token, every
  member of its posting set gets \<open>(scores.get(chunkId) || 0) + 1\<close>.
\<close>

definition bumpScore :: "string \<Rightarrow> (string \<times> nat) list \<Rightarrow> (string \<times> nat) list" where
  "bumpScore chunkId scores =
     AList.update chunkId ((case map_of scores chunkId of None \<Rightarrow> 0 | Some n \<Rightarrow> n) + 1) scores"

definition scoreToken :: "SearchIndex \<Rightarrow> string \<Rightarrow> (string \<times> nat) list \<Rightarrow> (string \<times> nat) list" where
  "scoreToken idx token scores =
     (case map_of (invertedIndex idx) token of
        None \<Rightarrow> scores
      | Some matchingChunks \<Rightarrow> fold bumpScore matchingChunks scores)"

definition rawScores :: "SearchIndex \<Rightarrow> string list \<Rightarrow> (string \<times> nat) list" where
  "rawScores idx queryTokens = fold (scoreToken idx) queryTokens []"

text \<open>\<open>Math.max(...scores.values(), 1)\<close>\<close>

definition maxScore :: "(string \<times> nat) list \<Rightarrow> nat" where
  "maxScore scores = fold max (map snd scores) 1"

text \<open>
  The three filter tests of \<open>search\<close>; a chunk passes when none of them says \<open>continue\<close>.
  An empty string is falsy, so an empty \<open>source\<close> or \<open>language\<close> filter tests nothing; an
  array is truthy even when empty.
\<close>

definition passesFilters :: "SearchFilters option \<Rightarrow> DocumentChunk \<Rightarrow> bool" where
  "passesFilters filters c =
     (case filters of
        None \<Rightarrow> True
      | Some f \<Rightarrow>
          \<not> (case f_source f of None \<Rightarrow> False
               | Some s \<Rightarrow> s \<noteq> [] \<and> source (metadata c) \<noteq> s) \<and>
          \<not> (case f_language f of None \<Rightarrow> False
               | Some l \<Rightarrow> l \<noteq> [] \<and> language (metadata c) \<noteq> Some l) \<and>
          \<not> (case f_tags f of None \<Rightarrow> False
               | Some ts \<Rightarrow> \<not> list_ex (\<lambda>t. case tags (metadata c) of None \<Rightarrow> False
                                              | Some cts \<Rightarrow> t \<in> set cts) ts))"

text \<open>The body of the loop over the scores: the results one entry contributes.\<close>

definition resultFor ::
    "SearchIndex \<Rightarrow> string list \<Rightarrow> SearchFilters option \<Rightarrow> nat \<Rightarrow> string \<times> nat
      \<Rightarrow> SearchResult list" where
  "resultFor idx queryTokens filters mx entry =
     (case map_of (chunks idx) (fst entry) of
        None \<Rightarrow> []
      | Some c \<Rightarrow>
          if passesFilters filters c
          then [\<lparr>chunk = c, score = real (snd entry) / real mx,
                 highlights = getHighlights (content c) queryTokens 50\<rparr>]
          else [])"

text \<open>
  \<open>search(query, limit, filters)\<close>; \<open>None\<close> is an omitted argument. \<open>Array.prototype.sort\<close>
  is stable, as \<^const>\<open>sort_key\<close> is, and the comparison \<open>b.score - a.score\<close> orders by
  falling score. A normalized score is the quotient of two counts, taken exactly.
\<close>

definition search ::
    "SearchIndex \<Rightarrow> string \<Rightarrow> int option \<Rightarrow> SearchFilters option \<Rightarrow> SearchResult list" where
  "search idx query limit filters =
     (let queryTokens = tokenize query;
          scores = rawScores idx queryTokens;
          results = concat (map (resultFor idx queryTokens filters (maxScore scores)) scores)
      in sliceTo (case limit of None \<Rightarrow> 10 | Some l \<Rightarrow> l)
           (sort_key (\<lambda>r. - score r) results))"

section \<open>ChunkingUtils (utils/chunking.ts)\<close>

text \<open>
  The two numbers of the constructor are integers here. The class takes any number and
  checks neither; a fractional \<open>overlap\<close> is outside the model, where \<open>slice(-overlap)\<close>
  drops the fraction of its argument, so that an \<open>overlap\<close> below 1 acts as 0 does.
\<close>

record ChunkingUtils =
  chunkSize :: int
  overlap :: int

text \<open>The constructor, with its defaults for omitted arguments.\<close>

definition newChunkingUtils :: "int option \<Rightarrow> int option \<Rightarrow> ChunkingUtils" where
  "newChunkingUtils cs ov =
     \<lparr>chunkSize = (case cs of None \<Rightarrow> 1000 | Some n \<Rightarrow> n),
      overlap = (case ov of None \<Rightarrow> 200 | Some n \<Rightarrow> n)\<rparr>"

definition newline :: char where
  "newline = CHR 0x0A"

definition splitParagraphs :: "string \<Rightarrow> string list" where
  "splitParagraphs text =
     filter (\<lambda>p. length (trim p) > 0)
       (map (\<lambda>p. trim p @ [newline, newline])
          (splitRuns (\<lambda>c. c = newline) 2 [] text))"

text \<open>\<open>line.match(/^#{1,6}\s/)\<close>: one to six \<open>#\<close>, then a whitespace character.\<close>

definition isHeader :: "string \<Rightarrow> bool" where
  "isHeader line =
     (let hashes = takeWhile (\<lambda>c. c = CHR ''#'') line;
          rest = dropWhile (\<lambda>c. c = CHR ''#'') line
      in 1 \<le> length hashes \<and> length hashes \<le> 6 \<and> rest \<noteq> [] \<and> isSpace (hd rest))"

text \<open>The loop of \<open>splitMarkdown\<close> over the lines, then the last section.\<close>

fun markdownLoop :: "string list \<Rightarrow> string list \<Rightarrow> string \<Rightarrow> string list" where
  "markdownLoop [] sections currentSection =
     (if trim currentSection \<noteq> [] then sections @ [currentSection] else sections)"
| "markdownLoop (line # lines) sections currentSection =
     (if isHeader line then
        markdownLoop lines
          (if trim currentSection \<noteq> [] then sections @ [currentSection] else sections)
          (line @ [newline])
      else if trim line = [] \<and> trim currentSection \<noteq> [] then
        markdownLoop lines (sections @ [currentSection @ [newline]]) []
      else markdownLoop lines sections (currentSection @ line @ [newline]))"

definition splitMarkdown :: "string \<Rightarrow> string list" where
  "splitMarkdown text = markdownLoop (splitChar newline [] text) [] []"

text \<open>The loop of \<open>splitCode\<close> over the lines, then the last section.\<close>

fun codeLoop :: "string list \<Rightarrow> string list \<Rightarrow> string \<Rightarrow> int \<Rightarrow> string list" where
  "codeLoop [] sections currentSection braceDepth =
     (if trim currentSection \<noteq> [] then sections @ [currentSection] else sections)"
| "codeLoop (line # lines) sections currentSection braceDepth =
     (let depth = braceDepth + int (length (filter (\<lambda>c. c = CHR ''{'') line))
                    - int (length (filter (\<lambda>c. c = CHR ''}'') line));
          section = currentSection @ line @ [newline]
      in if depth = 0 \<and> trim line = [] \<and> trim section \<noteq> []
         then codeLoop lines (sections @ [section]) [] depth
         else codeLoop lines sections section depth)"

definition splitCode :: "string \<Rightarrow> string list" where
  "splitCode text = codeLoop (splitChar newline [] text) [] [] 0"

definition splitSemantically :: "string \<Rightarrow> DocumentType \<Rightarrow> string list" where
  "splitSemantically text ty =
     (case ty of
        Markdown \<Rightarrow> splitMarkdown text
      | Code \<Rightarrow> splitCode text
      | _ \<Rightarrow> splitParagraphs text)"

text \<open>The chunk object as \<open>chunk\<close> builds it at its three places.\<close>

definition mkChunk :: "Document \<Rightarrow> nat \<Rightarrow> string \<Rightarrow> int \<Rightarrow> int \<Rightarrow> DocumentChunk" where
  "mkChunk document i text start end' =
     \<lparr>chunk_id = doc_id document @ ''-chunk-'' @ showNat i,
      documentId = doc_id document,
      content = text,
      title = None,
      startOffset = start,
      endOffset = end',
      metadata = doc_metadata document\<rparr>"

text \<open>
  The loop of \<open>chunk\<close> over the sections, with the variables \<open>chunks\<close> (here \<open>acc\<close>),
  \<open>currentChunk\<close>, \<open>startOffset\<close> (here \<open>start\<close>) and \<open>chunkIndex\<close> as arguments, then
  the last chunk. \<open>slice(-overlap)\<close> is the whole string when \<open>overlap\<close> is 0.
\<close>

fun chunkLoop :: "ChunkingUtils \<Rightarrow> Document \<Rightarrow> string list \<Rightarrow> DocumentChunk list \<Rightarrow> string
    \<Rightarrow> int \<Rightarrow> nat \<Rightarrow> DocumentChunk list" where
  "chunkLoop u document [] acc currentChunk start chunkIndex =
     (if length (trim currentChunk) > 0
      then acc @ [mkChunk document chunkIndex (trim currentChunk) start
                    (start + int (length currentChunk))]
      else acc)"
| "chunkLoop u document (section # sections) acc currentChunk start chunkIndex =
     (if int (length currentChunk) + int (length section) > chunkSize u
         \<and> length currentChunk > 0
      then chunkLoop u document sections
             (acc @ [mkChunk document chunkIndex (trim currentChunk) start
                       (start + int (length currentChunk))])
             (sliceFrom (- overlap u) currentChunk @ section)
             (start + int (length currentChunk) - overlap u)
             (chunkIndex + 1)
      else chunkLoop u document sections acc (currentChunk @ section) start chunkIndex)"

text \<open>
  The method \<open>chunk\<close>, named \<open>chunkDocument\<close> here since \<open>chunk\<close> is a field of
  \<open>SearchResult\<close>.
\<close>

definition chunkDocument :: "ChunkingUtils \<Rightarrow> Document \<Rightarrow> DocumentChunk list" where
  "chunkDocument u document =
     (if int (length (doc_content document)) \<le> chunkSize u
      then [mkChunk document 0 (doc_content document) 0 (int (length (doc_content document)))]
      else chunkLoop u document
             (splitSemantically (doc_content document) (doc_type document)) [] [] 0 0)"

section \<open>Index states and their invariants\<close>

text \<open>
  The states a \<open>SearchIndex\<close> object takes are those that a sequence of calls of its
  methods \<open>add\<close>, \<open>remove\<close> and \<open>clear\<close> builds from the index of the constructor.
\<close>

datatype IndexOp = Add DocumentChunk | Remove string | Clear

fun applyOp :: "IndexOp \<Rightarrow> SearchIndex \<Rightarrow> SearchIndex" where
  "applyOp (Add c) idx = add c idx"
| "applyOp (Remove cid) idx = snd (remove cid idx)"
| "applyOp Clear idx = clear idx"

definition runOps :: "IndexOp list \<Rightarrow> SearchIndex \<Rightarrow> SearchIndex" where
  "runOps ops idx = fold applyOp ops idx"

text \<open>The keys of a \<open>Map\<close> and the members of a \<open>Set\<close> are unique.\<close>

definition uniqueKeys :: "SearchIndex \<Rightarrow> bool" where
  "uniqueKeys idx = (distinct (map fst (chunks idx)) \<and> distinct (map fst (invertedIndex idx)))"

definition uniqueMembers :: "SearchIndex \<Rightarrow> bool" where
  "uniqueMembers idx = list_all (\<lambda>entry. distinct (snd entry)) (invertedIndex idx)"

text \<open>Every chunk is stored under its own id.\<close>

definition keyedById :: "SearchIndex \<Rightarrow> bool" where
  "keyedById idx = list_all (\<lambda>entry. chunk_id (snd entry) = fst entry) (chunks idx)"

definition wellFormed :: "SearchIndex \<Rightarrow> bool" where
  "wellFormed idx = (uniqueKeys idx \<and> uniqueMembers idx \<and> keyedById idx)"

text \<open>The posting set of a token: empty when the token has no entry.\<close>

definition postings :: "SearchIndex \<Rightarrow> string \<Rightarrow> string list" where
  "postings idx token =
     (case map_of (invertedIndex idx) token of None \<Rightarrow> [] | Some ids \<Rightarrow> ids)"

text \<open>The raw score of a chunk id in the scores of \<open>search\<close>, 0 when it has none.\<close>

definition scoreOf :: "(string \<times> nat) list \<Rightarrow> string \<Rightarrow> nat" where
  "scoreOf scores k = (case map_of scores k of None \<Rightarrow> 0 | Some n \<Rightarrow> n)"

text \<open>
  The consistency of the index: every id in the posting set of a token is the id of a
  stored chunk, and the token occurs among the tokens of that chunk's stored content.
\<close>

definition indexConsistent :: "SearchIndex \<Rightarrow> bool" where
  "indexConsistent idx =
     list_all (\<lambda>entry.
       list_all (\<lambda>cid. case map_of (chunks idx) cid of
                         None \<Rightarrow> False
                       | Some c \<Rightarrow> fst entry \<in> set (tokenize (content c)))
         (snd entry))
       (invertedIndex idx)"

text \<open>
  The discipline of updates: a chunk is added only under an id that is absent, or whose
  stored content has no token that the new content lacks (the same content, for one).
\<close>

definition allowedOp :: "IndexOp \<Rightarrow> SearchIndex \<Rightarrow> bool" where
  "allowedOp op idx =
     (case op of
        Add c \<Rightarrow>
          (case map_of (chunks idx) (chunk_id c) of
             None \<Rightarrow> True
           | Some old \<Rightarrow> list_all (\<lambda>t. t \<in> set (tokenize (content c))) (tokenize (content old)))
      | Remove cid \<Rightarrow> True
      | Clear \<Rightarrow> True)"

fun disciplined :: "IndexOp list \<Rightarrow> SearchIndex \<Rightarrow> bool" where
  "disciplined [] idx = True"
| "disciplined (op # ops) idx = (allowedOp op idx \<and> disciplined ops (applyOp op idx))"

text \<open>The same consistency, read through \<^const>\<open>postings\<close> and \<^const>\<open>map_of\<close>.\<close>

definition postingsSound :: "SearchIndex \<Rightarrow> bool" where
  "postingsSound idx =
     (\<forall>t i. i \<in> set (postings idx t) \<longrightarrow>
        (\<exists>c. map_of (chunks idx) i = Some c \<and> t \<in> set (tokenize (content c))))"

text \<open>The characters a token is made of: lower-case word characters.\<close>

definition tokenChar :: "char \<Rightarrow> bool" where
  "tokenChar c = (isWord c \<and> \<not> isSpace c \<and> lowerChar c = c)"

section \<open>Example inputs\<close>

definition exampleMetadata :: DocumentMetadata where
  "exampleMetadata =
     \<lparr>source = ''s'', path = None, language = None, version = None, tags = None,
      createdAt = None, updatedAt = None\<rparr>"

definition exampleChunk :: "string \<Rightarrow> string \<Rightarrow> DocumentChunk" where
  "exampleChunk i text =
     \<lparr>chunk_id = i, documentId = ''d'', content = text, title = None, startOffset = 0,
      endOffset = int (length text), metadata = exampleMetadata\<rparr>"

definition exampleDocument :: "string \<Rightarrow> Document" where
  "exampleDocument text =
     \<lparr>doc_id = ''d1'', doc_type = Text, doc_content = text, doc_title = None,
      doc_metadata = exampleMetadata\<rparr>"

text \<open>Two chunks, \<open>c1\<close> about a database and a cache and \<open>c2\<close> about a cache only.\<close>

definition exampleOps :: "IndexOp list" where
  "exampleOps =
     [Add (exampleChunk ''c1'' ''database cache''), Add (exampleChunk ''c2'' ''cache'')]"

text \<open>The same id added twice, with different contents.\<close>

definition staleOps :: "IndexOp list" where
  "staleOps = [Add (exampleChunk ''c1'' ''hello''), Add (exampleChunk ''c1'' ''world'')]"

text \<open>
  Documents for a chunker with \<open>chunkSize = 10\<close>: paragraphs that fit, and a short
  paragraph followed by one of \<open>n\<close> characters.
\<close>

definition longParagraph :: "nat \<Rightarrow> string" where
  "longParagraph n = ''aaa'' @ [newline, newline] @ replicate n CHR ''b''"

definition smallChunks :: ChunkingUtils where
  "smallChunks = newChunkingUtils (Some 10) (Some 2)"

definition threeParagraphs :: string where
  "threeParagraphs = ''aaaa'' @ [newline, newline] @ ''bbbbbb'' @ [newline, newline] @ ''cccc''"

definition fourParagraphs :: string where
  "fourParagraphs = ''aaaaaa'' @ [newline, newline] @ ''bbbbbb'' @ [newline, newline] @
     ''cccccc'' @ [newline, newline] @ ''dddddd''"

section \<open>Every state of the index is well formed\<close>

lemma set_update_subset: "set (AList.update k v al) \<subseteq> insert (k, v) (set al)"
  by (induction al) auto

lemma distinct_fold_addPosting:
  "distinct (map fst ix) \<Longrightarrow> distinct (map fst (fold (addPosting cid) ts ix))"
  by (induction ts arbitrary: ix) (auto simp: addPosting_def distinct_update split: option.splits)

lemma distinct_fold_deletePosting:
  "distinct (map fst ix) \<Longrightarrow> distinct (map fst (fold (deletePosting cid) ts ix))"
  by (induction ts arbitrary: ix)
     (auto simp: deletePosting_def distinct_update split: option.splits)

lemma uniqueKeys_add: "uniqueKeys idx \<Longrightarrow> uniqueKeys (add c idx)"
  by (simp add: uniqueKeys_def add_def distinct_update distinct_fold_addPosting)

lemma uniqueKeys_remove: "uniqueKeys idx \<Longrightarrow> uniqueKeys (snd (remove cid idx))"
  by (auto simp: uniqueKeys_def remove_def distinct_delete distinct_fold_deletePosting
      split: option.splits)

lemma members_addPosting:
  "list_all (\<lambda>e. distinct (snd e)) ix \<Longrightarrow>
   list_all (\<lambda>e. distinct (snd e)) (addPosting cid t ix)"
  using set_update_subset[of t _ ix]
  by (fastforce simp: addPosting_def list_all_iff setAdd_def dest: map_of_SomeD
      split: option.splits)

lemma members_deletePosting:
  "list_all (\<lambda>e. distinct (snd e)) ix \<Longrightarrow>
   list_all (\<lambda>e. distinct (snd e)) (deletePosting cid t ix)"
  using set_update_subset[of t _ ix]
  by (fastforce simp: deletePosting_def list_all_iff setDelete_def distinct_removeAll
      dest: map_of_SomeD split: option.splits)

lemma uniqueMembers_add: "uniqueMembers idx \<Longrightarrow> uniqueMembers (add c idx)"
proof -
  have "list_all (\<lambda>e. distinct (snd e)) ix \<Longrightarrow>
        list_all (\<lambda>e. distinct (snd e)) (fold (addPosting cid) ts ix)" for cid ts ix
    by (induction ts arbitrary: ix) (simp_all add: members_addPosting)
  then show "uniqueMembers idx \<Longrightarrow> uniqueMembers (add c idx)"
    by (simp add: uniqueMembers_def add_def)
qed

lemma uniqueMembers_remove: "uniqueMembers idx \<Longrightarrow> uniqueMembers (snd (remove cid idx))"
proof -
  have "list_all (\<lambda>e. distinct (snd e)) ix \<Longrightarrow>
        list_all (\<lambda>e. distinct (snd e)) (fold (deletePosting cid) ts ix)" for cid ts ix
    by (induction ts arbitrary: ix) (simp_all add: members_deletePosting)
  then show "uniqueMembers idx \<Longrightarrow> uniqueMembers (snd (remove cid idx))"
    by (simp add: uniqueMembers_def remove_def split: option.splits)
qed

lemma keyedById_add: "keyedById idx \<Longrightarrow> keyedById (add c idx)"
  using set_update_subset[of "chunk_id c" c "chunks idx"]
  by (fastforce simp: keyedById_def add_def list_all_iff)

lemma keyedById_remove: "keyedById idx \<Longrightarrow> keyedById (snd (remove cid idx))"
  by (auto simp: keyedById_def remove_def list_all_iff AList.delete_eq split: option.splits)

lemma wellFormed_applyOp: "wellFormed idx \<Longrightarrow> wellFormed (applyOp op idx)"
  by (cases op)
     (simp_all add: wellFormed_def uniqueKeys_add uniqueMembers_add keyedById_add
        uniqueKeys_remove uniqueMembers_remove keyedById_remove,
      simp add: clear_def uniqueKeys_def uniqueMembers_def keyedById_def)

lemma wellFormed_fold: "wellFormed idx \<Longrightarrow> wellFormed (fold applyOp ops idx)"
  by (induction ops arbitrary: idx) (simp_all add: wellFormed_applyOp)

lemma wellFormed_newIndex: "wellFormed newIndex"
  by (simp add: wellFormed_def newIndex_def uniqueKeys_def uniqueMembers_def keyedById_def)

lemma wellFormed_runOps: "wellFormed (runOps ops newIndex)"
  unfolding runOps_def by (rule wellFormed_fold) (rule wellFormed_newIndex)

section \<open>Slices\<close>

lemma set_sliceTo: "set (sliceTo e xs) \<subseteq> set xs"
  by (auto simp: sliceTo_def dest: in_set_takeD)

lemma length_sliceTo: "0 \<le> e \<Longrightarrow> int (length (sliceTo e xs)) \<le> e"
  by (simp add: sliceTo_def)

lemma sliceTo_all: "int (length xs) \<le> e \<Longrightarrow> sliceTo e xs = xs"
  by (simp add: sliceTo_def)

lemma distinct_map_take: "distinct (map f xs) \<Longrightarrow> distinct (map f (take n xs))"
  by (simp flip: take_map)

lemma distinct_map_sliceTo: "distinct (map f xs) \<Longrightarrow> distinct (map f (sliceTo e xs))"
  by (simp add: sliceTo_def distinct_map_take)

lemma sorted_wrt_sliceTo: "sorted_wrt R xs \<Longrightarrow> sorted_wrt R (sliceTo e xs)"
  by (simp add: sliceTo_def)

section \<open>Small documents\<close>

text \<open>
  C5: for every document whose content is not longer than \<open>chunkSize\<close>, \<open>chunk\<close> returns
  exactly one chunk, with \<open>startOffset = 0\<close>, \<open>endOffset = content.length\<close> and the
  document's whole content.
\<close>

theorem chunk_small_document:
  assumes "int (length (doc_content document)) \<le> chunkSize u"
  shows "\<exists>c. chunkDocument u document = [c] \<and> startOffset c = 0 \<and>
           endOffset c = int (length (doc_content document)) \<and>
           content c = doc_content document"
  using assms by (simp add: chunkDocument_def mkChunk_def)

theorem chunk_small_document_witness:
  "int (length (doc_content (exampleDocument ''hello world''))) \<le>
     chunkSize (newChunkingUtils None None) \<and>
   (\<exists>c. chunkDocument (newChunkingUtils None None) (exampleDocument ''hello world'') = [c] \<and>
      startOffset c = 0 \<and> endOffset c = 11 \<and> content c = ''hello world'')"
proof -
  have h: "int (length (doc_content (exampleDocument ''hello world''))) \<le>
      chunkSize (newChunkingUtils None None)"
    by (simp add: exampleDocument_def newChunkingUtils_def)
  from chunk_small_document[OF h] h show ?thesis
    by (simp add: exampleDocument_def)
qed

section \<open>Removing a chunk\<close>

lemma length_delete_present:
  "distinct (map fst al) \<Longrightarrow> k \<in> fst ` set al \<Longrightarrow> Suc (length (AList.delete k al)) = length al"
proof (induction al)
  case Nil
  then show ?case by simp
next
  case (Cons p al)
  show ?case
  proof (cases "fst p = k")
    case True
    with Cons.prems have "k \<notin> fst ` set al" by auto
    then have "AList.delete k al = al" by (rule delete_id)
    with True show ?thesis by (cases p) simp
  next
    case False
    with Cons show ?thesis by (cases p) auto
  qed
qed

lemma map_of_present: "map_of al k = Some v \<Longrightarrow> k \<in> fst ` set al"
  by (metis domI dom_map_of_conv_image_fst)

text \<open>
  C7: in every state of the index in which the chunk id is present, \<open>remove(id)\<close> returns
  true and \<open>count()\<close> goes down by exactly 1; a second \<open>remove(id)\<close> right after it returns
  false and leaves \<open>count()\<close> as it is.
\<close>

theorem remove_present_twice:
  assumes "idx = runOps ops newIndex"
    and "map_of (chunks idx) cid \<noteq> None"
  shows "fst (remove cid idx) \<and>
         count (snd (remove cid idx)) + 1 = count idx \<and>
         \<not> fst (remove cid (snd (remove cid idx))) \<and>
         count (snd (remove cid (snd (remove cid idx)))) = count (snd (remove cid idx))"
proof -
  from assms(2) obtain c where c: "map_of (chunks idx) cid = Some c" by auto
  have d: "distinct (map fst (chunks idx))"
    using wellFormed_runOps[of ops] assms(1) by (simp add: wellFormed_def uniqueKeys_def)
  have gone: "map_of (chunks (snd (remove cid idx))) cid = None"
    using c by (simp add: remove_def delete_conv')
  have 1: "fst (remove cid idx)"
    using c by (simp add: remove_def map_of_present)
  have 2: "count (snd (remove cid idx)) + 1 = count idx"
    using c length_delete_present[OF d map_of_present[OF c]] by (simp add: remove_def count_def)
  have 3: "remove cid (snd (remove cid idx)) = (False, snd (remove cid idx))"
    using gone by (simp add: remove_def[of cid "snd (remove cid idx)"])
  from 1 2 3 show ?thesis by simp
qed

theorem remove_present_twice_witness:
  "map_of (chunks (runOps exampleOps newIndex)) ''c1'' \<noteq> None \<and>
   count (runOps exampleOps newIndex) = 2 \<and>
   fst (remove ''c1'' (runOps exampleOps newIndex)) \<and>
   count (snd (remove ''c1'' (runOps exampleOps newIndex))) = 1 \<and>
   \<not> fst (remove ''c1'' (snd (remove ''c1'' (runOps exampleOps newIndex)))) \<and>
   count (snd (remove ''c1'' (snd (remove ''c1'' (runOps exampleOps newIndex))))) = 1"
proof -
  have h: "map_of (chunks (runOps exampleOps newIndex)) ''c1'' \<noteq> None"
    by code_simp
  have n: "count (runOps exampleOps newIndex) = 2"
    by code_simp
  from remove_present_twice[OF refl h] h n show ?thesis
    by simp
qed

section \<open>The results of a search\<close>

lemma resultFor_highlights:
  "r \<in> set (resultFor idx qts filters mx entry) \<Longrightarrow> length (highlights r) \<le> 3"
  by (auto simp: resultFor_def getHighlights_def Let_def sliceTo_def
      split: option.splits if_splits)

lemma search_subset:
  "set (search idx query limit filters) \<subseteq>
   set (concat (map (resultFor idx (tokenize query) filters
      (maxScore (rawScores idx (tokenize query)))) (rawScores idx (tokenize query))))"
  using set_sliceTo by (fastforce simp: search_def Let_def)

text \<open>
  C8: for every query, limit, filters and index, each result of \<open>search\<close> carries at most
  3 highlight snippets, however often the query tokens occur in the chunk's content.
\<close>

theorem search_highlights_le_3:
  "\<forall>r \<in> set (search idx query limit filters). length (highlights r) \<le> 3"
proof
  fix r assume "r \<in> set (search idx query limit filters)"
  with search_subset have "r \<in> set (concat (map (resultFor idx (tokenize query) filters
      (maxScore (rawScores idx (tokenize query)))) (rawScores idx (tokenize query))))"
    by blast
  then show "length (highlights r) \<le> 3"
    by (auto dest: resultFor_highlights)
qed

theorem search_highlights_le_3_witness:
  "length (search (add (exampleChunk ''c3'' ''cache cache cache cache cache'') newIndex)
      ''cache'' None None) = 1 \<and>
   length (highlights (hd (search
      (add (exampleChunk ''c3'' ''cache cache cache cache cache'') newIndex)
      ''cache'' None None))) \<le> 3"
proof -
  let ?rs = "search (add (exampleChunk ''c3'' ''cache cache cache cache cache'') newIndex)
      ''cache'' None None"
  have n: "length ?rs = 1"
    by code_simp
  then have "hd ?rs \<in> set ?rs"
    by (cases ?rs) simp_all
  with search_highlights_le_3 have "length (highlights (hd ?rs)) \<le> 3"
    by blast
  with n show ?thesis by simp
qed

lemma sorted_desc_sort_key:
  "sorted_wrt (\<lambda>a b. score b \<le> score a) (sort_key (\<lambda>r. - score r) rs)"
proof -
  have "sorted (map (\<lambda>r. - score r) (sort_key (\<lambda>r. - score r) rs))"
    by (rule sorted_sort_key)
  then show ?thesis
    by (simp add: sorted_map sorted_wrt_iff_nth_less)
qed

text \<open>
  C9, amended: for every query and filters and every limit that is not negative, \<open>search\<close>
  returns at most \<open>limit\<close> results, at most 10 when the limit is omitted; for every limit
  the results are sorted by score in non-increasing order.
\<close>

theorem search_limit_sorted:
  "(case limit of
      None \<Rightarrow> length (search idx query limit filters) \<le> 10
    | Some l \<Rightarrow> 0 \<le> l \<longrightarrow> int (length (search idx query limit filters)) \<le> l) \<and>
   sorted_wrt (\<lambda>a b. score b \<le> score a) (search idx query limit filters)"
proof
  show "case limit of
      None \<Rightarrow> length (search idx query limit filters) \<le> 10
    | Some l \<Rightarrow> 0 \<le> l \<longrightarrow> int (length (search idx query limit filters)) \<le> l"
    using length_sliceTo[of 10]
    by (auto simp: search_def Let_def length_sliceTo split: option.splits)
  show "sorted_wrt (\<lambda>a b. score b \<le> score a) (search idx query limit filters)"
    unfolding search_def Let_def by (rule sorted_wrt_sliceTo) (rule sorted_desc_sort_key)
qed

theorem search_limit_sorted_witness:
  "length (search (runOps exampleOps newIndex) ''database cache'' (Some 1) None) \<le> 1 \<and>
   sorted_wrt (\<lambda>a b. score b \<le> score a)
     (search (runOps exampleOps newIndex) ''database cache'' (Some 1) None) \<and>
   length (search (runOps exampleOps newIndex) ''database cache'' None None) = 2 \<and>
   sorted_wrt (\<lambda>a b. score b \<le> score a)
     (search (runOps exampleOps newIndex) ''database cache'' None None)"
proof -
  have n: "length (search (runOps exampleOps newIndex) ''database cache'' None None) = 2"
    by code_simp
  from search_limit_sorted[where limit = "Some 1" and idx = "runOps exampleOps newIndex"
      and query = "''database cache''" and filters = None]
    search_limit_sorted[where limit = None and idx = "runOps exampleOps newIndex"
      and query = "''database cache''" and filters = None] n
  show ?thesis by simp
qed

text \<open>
  C9 as stated fails for a negative limit: \<open>slice(0, -1)\<close> drops the last result only, so
  with two matching chunks one result comes back, which is more than \<open>limit = -1\<close>.
\<close>

theorem search_negative_limit_counterexample:
  "\<not> int (length (search (runOps exampleOps newIndex) ''database cache'' (Some (- 1)) None))
      \<le> - 1"
proof -
  have "length (search (runOps exampleOps newIndex) ''database cache'' (Some (- 1)) None) = 1"
    by code_simp
  then show ?thesis by simp
qed

section \<open>Raw scores\<close>


lemma keys_bumpScore: "fst ` set (bumpScore k sc) = insert k (fst ` set sc)"
  by (simp add: bumpScore_def dom_update)

lemma scoreOf_bumpScore: "scoreOf (bumpScore k sc) j = (if j = k then scoreOf sc k + 1 else scoreOf sc j)"
  by (simp add: bumpScore_def scoreOf_def update_conv')

lemma distinct_bumpScore: "distinct (map fst sc) \<Longrightarrow> distinct (map fst (bumpScore k sc))"
  by (simp add: bumpScore_def distinct_update)

lemma keys_fold_bumpScore: "fst ` set (fold bumpScore ids sc) = set ids \<union> fst ` set sc"
  by (induction ids arbitrary: sc) (auto simp: keys_bumpScore)

lemma scoreOf_fold_bumpScore:
  "scoreOf (fold bumpScore ids sc) j = scoreOf sc j + count_list ids j"
  by (induction ids arbitrary: sc) (auto simp: scoreOf_bumpScore)

lemma distinct_fold_bumpScore:
  "distinct (map fst sc) \<Longrightarrow> distinct (map fst (fold bumpScore ids sc))"
  by (induction ids arbitrary: sc) (auto simp: distinct_bumpScore)

lemma scoreToken_postings: "scoreToken idx t sc = fold bumpScore (postings idx t) sc"
  by (simp add: scoreToken_def postings_def split: option.splits)

lemma keys_fold_scoreToken:
  "fst ` set (fold (scoreToken idx) ts sc) = (\<Union>t \<in> set ts. set (postings idx t)) \<union> fst ` set sc"
  by (induction ts arbitrary: sc) (auto simp: scoreToken_postings keys_fold_bumpScore)

lemma scoreOf_fold_scoreToken:
  "scoreOf (fold (scoreToken idx) ts sc) j = scoreOf sc j + (\<Sum>t\<leftarrow>ts. count_list (postings idx t) j)"
  by (induction ts arbitrary: sc) (auto simp: scoreToken_postings scoreOf_fold_bumpScore)

lemma distinct_fold_scoreToken:
  "distinct (map fst sc) \<Longrightarrow> distinct (map fst (fold (scoreToken idx) ts sc))"
  by (induction ts arbitrary: sc) (auto simp: scoreToken_postings distinct_fold_bumpScore)

lemma distinct_rawScores: "distinct (map fst (rawScores idx ts))"
  by (simp add: rawScores_def distinct_fold_scoreToken)

lemma scoreOf_Nil: "scoreOf [] k = 0"
  by (simp add: scoreOf_def)

lemma map_of_scoreOf:
  "map_of sc k = (if k \<in> fst ` set sc then Some (scoreOf sc k) else None)"
  by (auto simp: scoreOf_def map_of_eq_None_iff split: option.splits)

lemma count_list_distinct: "distinct xs \<Longrightarrow> count_list xs x = (if x \<in> set xs then 1 else 0)"
  by (induction xs) auto

lemma sum_list_indicator: "(\<Sum>t\<leftarrow>ts. if P t then 1 else 0) = length (filter P ts)"
  by (induction ts) auto

lemma uniqueMembers_postings: "uniqueMembers idx \<Longrightarrow> distinct (postings idx t)"
  by (auto simp: uniqueMembers_def postings_def list_all_iff dest!: map_of_SomeD split: option.splits)

lemma rawScores_count:
  assumes "uniqueMembers idx"
  shows "map_of (rawScores idx ts) cid =
    (let n = length (filter (\<lambda>t. cid \<in> set (postings idx t)) ts)
     in if n = 0 then None else Some n)"
proof -
  have c: "count_list (postings idx t) cid = (if cid \<in> set (postings idx t) then 1 else 0)" for t
    using uniqueMembers_postings[OF assms] by (rule count_list_distinct)
  have v: "scoreOf (rawScores idx ts) cid = length (filter (\<lambda>t. cid \<in> set (postings idx t)) ts)"
    using scoreOf_fold_scoreToken[of idx ts "[]" cid]
    by (simp add: rawScores_def scoreOf_Nil c sum_list_indicator)
  have k: "cid \<in> fst ` set (rawScores idx ts) \<longleftrightarrow> (\<exists>t \<in> set ts. cid \<in> set (postings idx t))"
    by (simp add: rawScores_def keys_fold_scoreToken)
  have z: "length (filter (\<lambda>t. cid \<in> set (postings idx t)) ts) = 0 \<longleftrightarrow>
      \<not> (\<exists>t \<in> set ts. cid \<in> set (postings idx t))"
    by (simp add: filter_empty_conv)
  show ?thesis
    unfolding Let_def map_of_scoreOf[of "rawScores idx ts" cid] v k z by simp
qed

text \<open>
  C3, amended: for every query and every state of the index, the raw score \<open>search\<close>
  computes for a chunk is the number of entries of the query's token list, repeats
  counted, whose posting set contains the chunk's id; a chunk that no entry matches has no
  score. Each occurrence of a token in the query contributes exactly 1.
\<close>

theorem raw_score_counts_occurrences:
  "map_of (rawScores (runOps ops newIndex) (tokenize query)) cid =
    (let n = length (filter (\<lambda>t. cid \<in> set (postings (runOps ops newIndex) t)) (tokenize query))
     in if n = 0 then None else Some n)"
  using wellFormed_runOps[of ops] by (intro rawScores_count) (simp add: wellFormed_def)

theorem raw_score_counts_occurrences_witness:
  "length (filter (\<lambda>t. ''c2'' \<in> set (postings (runOps exampleOps newIndex) t))
      (tokenize ''cache cache'')) = 2 \<and>
   map_of (rawScores (runOps exampleOps newIndex) (tokenize ''cache cache'')) ''c2'' = Some 2"
proof -
  have n: "length (filter (\<lambda>t. ''c2'' \<in> set (postings (runOps exampleOps newIndex) t))
      (tokenize ''cache cache'')) = 2"
    by code_simp
  have "map_of (rawScores (runOps exampleOps newIndex) (tokenize ''cache cache'')) ''c2'' = Some 2"
    using raw_score_counts_occurrences[of exampleOps "''cache cache''" "''c2''"]
    unfolding n by simp
  with n show ?thesis by simp
qed

text \<open>
  C3 as stated fails: the query \<open>cache cache\<close> has one distinct token, yet the chunk
  \<open>c2\<close> gets the raw score 2, twice its score for the query \<open>cache\<close>; and repeating
  \<open>cache\<close> in the query \<open>database cache\<close> moves the normalized score of \<open>c2\<close> from 1/2
  to 2/3 while that of \<open>c1\<close> stays 1.
\<close>

theorem repeated_token_counterexample:
  "remdups (tokenize ''cache cache'') = [''cache''] \<and>
   scoreOf (rawScores (runOps exampleOps newIndex) (tokenize ''cache'')) ''c2'' = 1 \<and>
   scoreOf (rawScores (runOps exampleOps newIndex) (tokenize ''cache cache'')) ''c2'' = 2 \<and>
   map (\<lambda>r. (chunk_id (chunk r), score r))
     (search (runOps exampleOps newIndex) ''database cache'' None None)
     = [(''c1'', 1), (''c2'', 1 / 2)] \<and>
   map (\<lambda>r. (chunk_id (chunk r), score r))
     (search (runOps exampleOps newIndex) ''database cache cache'' None None)
     = [(''c1'', 1), (''c2'', 2 / 3)]"
  by code_simp

lemma resultFor_ids:
  assumes "keyedById idx" "r \<in> set (resultFor idx qts filters mx entry)"
  shows "chunk_id (chunk r) = fst entry"
proof -
  from assms(2) have "\<exists>c. map_of (chunks idx) (fst entry) = Some c \<and> chunk r = c"
    by (cases "map_of (chunks idx) (fst entry)") (auto simp: resultFor_def split: if_splits)
  then obtain c where c: "map_of (chunks idx) (fst entry) = Some c" "chunk r = c"
    by blast
  from c(1) have "(fst entry, c) \<in> set (chunks idx)" by (rule map_of_SomeD)
  with assms(1) have "chunk_id c = fst entry" by (auto simp: keyedById_def list_all_iff)
  with c(2) show ?thesis by simp
qed

lemma length_resultFor: "length (resultFor idx qts filters mx entry) \<le> 1"
  by (simp add: resultFor_def split: option.splits)

lemma distinct_results:
  assumes "keyedById idx"
  shows "distinct (map fst scores) \<Longrightarrow>
    distinct (map (\<lambda>r. chunk_id (chunk r)) (concat (map (resultFor idx qts filters mx) scores)))"
proof (induction scores)
  case Nil
  then show ?case by simp
next
  case (Cons e scores)
  have one: "distinct (map (\<lambda>r. chunk_id (chunk r)) (resultFor idx qts filters mx e))"
    by (simp add: resultFor_def split: option.splits)
  have sep: "chunk_id (chunk r) \<noteq> chunk_id (chunk r')"
    if "r \<in> set (resultFor idx qts filters mx e)"
      and "r' \<in> set (resultFor idx qts filters mx e')" and "e' \<in> set scores" for r r' e'
    using resultFor_ids[OF assms that(1)] resultFor_ids[OF assms that(2)] that(3) Cons.prems
    by auto
  from Cons one sep show ?case by (auto simp: distinct_map)  
qed

text \<open>
  C10: for every query, limit, filters and state of the index, no chunk id occurs twice
  among the results of \<open>search\<close>.
\<close>

theorem search_ids_distinct:
  "distinct (map (\<lambda>r. chunk_id (chunk r)) (search (runOps ops newIndex) query limit filters))"
proof -
  let ?idx = "runOps ops newIndex"
  let ?rs = "concat (map (resultFor ?idx (tokenize query) filters
      (maxScore (rawScores ?idx (tokenize query)))) (rawScores ?idx (tokenize query)))"
  have "keyedById ?idx" using wellFormed_runOps[of ops] by (simp add: wellFormed_def)
  then have "distinct (map (\<lambda>r. chunk_id (chunk r)) ?rs)"
    using distinct_rawScores by (rule distinct_results)
  then have "distinct (map (\<lambda>r. chunk_id (chunk r)) (sort_key (\<lambda>r. - score r) ?rs))"
    by (simp add: distinct_map)
  then show ?thesis
    unfolding search_def Let_def by (rule distinct_map_sliceTo)
qed


theorem search_ids_distinct_witness:
  "map (\<lambda>r. chunk_id (chunk r))
     (search (runOps exampleOps newIndex) ''database cache'' None None) = [''c1'', ''c2''] \<and>
   distinct (map (\<lambda>r. chunk_id (chunk r))
     (search (runOps exampleOps newIndex) ''database cache'' None None))"
proof -
  have e: "map (\<lambda>r. chunk_id (chunk r))
     (search (runOps exampleOps newIndex) ''database cache'' None None) = [''c1'', ''c2'']"
    by code_simp
  from e search_ids_distinct[of exampleOps "''database cache''" None None]
  show ?thesis by (rule conjI)
qed

section \<open>Tokens and the round trip through the index\<close>


lemma code_unit_lowerChar:
  "code_unit (lowerChar c) =
     (if (65 \<le> code_unit c \<and> code_unit c \<le> 90) \<or>
         (192 \<le> code_unit c \<and> code_unit c \<le> 222 \<and> code_unit c \<noteq> 215)
      then code_unit c + 32 else code_unit c)"
  by (auto simp: lowerChar_def code_unit_def Let_def)

lemma lowerChar_idem: "lowerChar (lowerChar c) = lowerChar c"
  using code_unit_lowerChar[of c]
  by (subst lowerChar_def[of "lowerChar c"]) (auto simp: Let_def)

lemma isSpace_blank: "isSpace CHR '' ''"
  by (simp add: isSpace_def code_unit_def)

lemma splitRuns_pieces:
  "x \<in> set (splitRuns P (Suc 0) cur s) \<Longrightarrow> \<forall>c \<in> set cur. \<not> P c \<and> Q c \<Longrightarrow>
   \<forall>c \<in> set s. Q c \<Longrightarrow> \<forall>c \<in> set x. \<not> P c \<and> Q c"
proof (induction P "Suc 0" cur s rule: splitRuns.induct)
  case (1 P cur)
  then show ?case by simp
next
  case (2 P cur c cs)
  show ?case
  proof (cases "P c")
    case True
    with "2.prems"(1) have "x = cur \<or> x \<in> set (splitRuns P (Suc 0) [] (dropWhile P cs))"
      by simp
    then show ?thesis
    proof
      assume "x = cur"
      with "2.prems"(2) show ?thesis by simp
    next
      assume x: "x \<in> set (splitRuns P (Suc 0) [] (dropWhile P cs))"
      have "\<forall>c \<in> set (dropWhile P cs). Q c"
        using "2.prems"(3) by (auto dest: set_dropWhileD)
      with "2.hyps"(1)[OF _ x] True show ?thesis by simp
    qed
  next
    case False
    with "2.prems"(1) have x: "x \<in> set (splitRuns P (Suc 0) (cur @ [c]) cs)"
      by simp
    from False "2.prems" have "\<forall>d \<in> set (cur @ [c]). \<not> P d \<and> Q d" by auto
    moreover from "2.prems"(3) have "\<forall>c \<in> set cs. Q c" by simp
    ultimately show ?thesis
      using "2.hyps"(2)[OF _ x] False by blast
  qed
qed

lemma splitRuns_no_match:
  "\<forall>c \<in> set s. \<not> P c \<Longrightarrow> splitRuns P k cur s = [cur @ s]"
  by (induction s arbitrary: cur) auto

lemma token_chars:
  assumes "T \<in> set (tokenize text)"
  shows "\<forall>c \<in> set T. tokenChar c" and "length T > 2"
proof -
  let ?s = "map (\<lambda>c. if isWord c \<or> isSpace c then c else CHR '' '') (toLowerCase text)"
  let ?Q = "\<lambda>c. isSpace c \<or> (isWord c \<and> lowerChar c = c)"
  from assms have mem: "T \<in> set (splitRuns isSpace (Suc 0) [] ?s)" and len: "length T > 2"
    by (simp_all add: tokenize_def)
  have q: "\<forall>c \<in> set ?s. ?Q c"
    by (auto simp: toLowerCase_def isSpace_blank lowerChar_idem)
  have e: "\<forall>c \<in> set []. \<not> isSpace c \<and> ?Q c"
    by simp
  have "\<forall>c \<in> set T. \<not> isSpace c \<and> ?Q c"
    using mem e q by (rule splitRuns_pieces)
  then show "\<forall>c \<in> set T. tokenChar c"
    by (auto simp: tokenChar_def)
  from len show "length T > 2" .
qed

lemma tokenize_token:
  assumes "T \<in> set (tokenize text)"
  shows "tokenize T = [T]"
proof -
  from token_chars[OF assms] have ch: "\<forall>c \<in> set T. tokenChar c" and len: "length T > 2"
    by simp_all
  from ch have "map lowerChar T = T"
    by (simp add: tokenChar_def map_idI)
  moreover from ch have "map (\<lambda>c. if isWord c \<or> isSpace c then c else CHR '' '') T = T"
    by (simp add: tokenChar_def map_idI)
  moreover from ch have "splitRuns isSpace 1 [] T = [T]"
    by (simp add: splitRuns_no_match tokenChar_def)
  ultimately show ?thesis
    using len by (simp add: tokenize_def toLowerCase_def)
qed

lemma setAdd_idem: "setAdd x (setAdd x xs) = setAdd x xs"
  by (simp add: setAdd_def)

lemma map_of_addPosting:
  "map_of (addPosting cid t ix) =
     (map_of ix)(t \<mapsto> setAdd cid (case map_of ix t of None \<Rightarrow> [] | Some ids \<Rightarrow> ids))"
  by (simp add: addPosting_def update_conv' split: option.splits)

lemma map_of_fold_addPosting:
  "map_of (fold (addPosting cid) ts ix) t =
     (if t \<in> set ts
      then Some (setAdd cid (case map_of ix t of None \<Rightarrow> [] | Some ids \<Rightarrow> ids))
      else map_of ix t)"
  by (induction ts arbitrary: ix) (auto simp: map_of_addPosting setAdd_idem)

lemma postings_add:
  "postings (add c idx) t =
     (if t \<in> set (tokenize (content c)) then setAdd (chunk_id c) (postings idx t)
      else postings idx t)"
  by (simp add: postings_def add_def map_of_fold_addPosting)

lemma fold_max_ge: "(a::nat) \<le> fold max xs a"
proof (induction xs arbitrary: a)
  case Nil
  then show ?case by simp
next
  case (Cons x xs)
  have "a \<le> max x a" by simp
  also have "\<dots> \<le> fold max xs (max x a)" by (rule Cons.IH)
  finally show ?case by simp
qed

lemma maxScore_pos: "0 < maxScore scores"
  using fold_max_ge[of 1 "map snd scores"] by (simp add: maxScore_def)

lemma length_results_le:
  assumes "distinct (map fst scores)"
  shows "length (concat (map (resultFor idx qts filters mx) scores)) \<le> length (chunks idx)"
proof -
  let ?hit = "\<lambda>e. map_of (chunks idx) (fst e) \<noteq> None"
  have "length (concat (map (resultFor idx qts filters mx) scores)) \<le> length (filter ?hit scores)"
  proof (induction scores)
    case Nil
    then show ?case by simp
  next
    case (Cons e scores)
    have "length (resultFor idx qts filters mx e) \<le> (if ?hit e then 1 else 0)"
      by (simp add: resultFor_def split: option.splits)
    with Cons show ?case by auto
  qed
  also have "\<dots> = length (map fst (filter ?hit scores))" by simp
  also have "\<dots> = card (set (map fst (filter ?hit scores)))"
  proof -
    have "distinct (map fst (filter ?hit scores))"
      using assms by (rule distinct_map_filter)
    then show ?thesis by (rule distinct_card[symmetric])
  qed
  also have "\<dots> \<le> card (fst ` set (chunks idx))"
    by (rule card_mono) (auto simp: map_of_eq_None_iff)
  also have "\<dots> \<le> length (chunks idx)"
    by (metis card_length length_map set_map)
  finally show ?thesis .
qed

text \<open>
  C6: for every chunk whose content has the token \<open>T\<close> among its tokens (so \<open>T\<close> is
  longer than 2), after \<open>add(chunk)\<close> on any index, \<open>search(T, limit)\<close> without filters and
  with a limit of at least the number of indexed chunks returns a result whose chunk is
  that chunk and whose score is greater than 0.
\<close>

theorem add_then_search_finds:
  assumes tok: "T \<in> set (tokenize (content c))"
    and lim: "int (count (add c idx)) \<le> limit"
  shows "\<exists>r \<in> set (search (add c idx) T (Some limit) None). chunk r = c \<and> 0 < score r"
proof -
  let ?idx = "add c idx"
  let ?scores = "rawScores ?idx [T]"
  let ?rs = "concat (map (resultFor ?idx [T] None (maxScore ?scores)) ?scores)"
  have cid: "chunk_id c \<in> set (postings ?idx T)"
    using tok by (simp add: postings_add setAdd_def)
  have sc: "?scores = fold bumpScore (postings ?idx T) []"
    by (simp add: rawScores_def scoreToken_postings)
  have key: "chunk_id c \<in> fst ` set ?scores"
    using cid by (simp add: sc keys_fold_bumpScore)
  have "scoreOf ?scores (chunk_id c) = count_list (postings ?idx T) (chunk_id c)"
    by (simp add: sc scoreOf_fold_bumpScore scoreOf_Nil)
  with cid have pos: "0 < scoreOf ?scores (chunk_id c)"
    by (simp add: count_list_0_iff zero_less_iff_neq_zero)
  from key have "map_of ?scores (chunk_id c) = Some (scoreOf ?scores (chunk_id c))"
    by (simp add: map_of_scoreOf)
  then have entry: "(chunk_id c, scoreOf ?scores (chunk_id c)) \<in> set ?scores"
    by (rule map_of_SomeD)
  have stored: "map_of (chunks ?idx) (chunk_id c) = Some c"
    by (simp add: add_def update_conv')
  let ?r = "\<lparr>chunk = c, score = real (scoreOf ?scores (chunk_id c)) / real (maxScore ?scores),
      highlights = getHighlights (content c) [T] 50\<rparr>"
  have "resultFor ?idx [T] None (maxScore ?scores) (chunk_id c, scoreOf ?scores (chunk_id c)) = [?r]"
    by (simp add: resultFor_def stored passesFilters_def)
  with entry have "?r \<in> set ?rs" by force
  moreover have "length ?rs \<le> count ?idx"
    unfolding count_def using distinct_rawScores by (rule length_results_le)
  with lim have "sliceTo limit (sort_key (\<lambda>r. - score r) ?rs) = sort_key (\<lambda>r. - score r) ?rs"
    by (intro sliceTo_all) simp
  ultimately have "?r \<in> set (search ?idx T (Some limit) None)"
    by (simp add: search_def Let_def tokenize_token[OF tok])
  moreover have "0 < score ?r"
    using pos maxScore_pos[of ?scores] by simp
  ultimately show ?thesis
    by (intro bexI[of _ ?r]) simp_all
qed


theorem add_then_search_finds_witness:
  "''database'' \<in> set (tokenize (content (exampleChunk ''c9'' ''The Database, cached!''))) \<and>
   int (count (add (exampleChunk ''c9'' ''The Database, cached!'')
      (runOps exampleOps newIndex))) \<le> 3 \<and>
   (\<exists>r \<in> set (search (add (exampleChunk ''c9'' ''The Database, cached!'')
        (runOps exampleOps newIndex)) ''database'' (Some 3) None).
      chunk r = exampleChunk ''c9'' ''The Database, cached!'' \<and> 0 < score r)"
proof -
  have t: "''database'' \<in> set (tokenize (content (exampleChunk ''c9'' ''The Database, cached!'')))"
    by code_simp
  have l: "int (count (add (exampleChunk ''c9'' ''The Database, cached!'')
      (runOps exampleOps newIndex))) \<le> 3"
    by code_simp
  from t l add_then_search_finds[OF t l] show ?thesis
    by (intro conjI)
qed

section \<open>Consistency of the postings\<close>


lemma indexConsistent_iff:
  assumes "distinct (map fst (invertedIndex idx))"
  shows "indexConsistent idx \<longleftrightarrow> postingsSound idx"
proof
  assume c: "indexConsistent idx"
  show "postingsSound idx"
    unfolding postingsSound_def
  proof (intro allI impI)
    fix t i assume i: "i \<in> set (postings idx t)"
    then have "\<exists>ids. map_of (invertedIndex idx) t = Some ids \<and> i \<in> set ids"
      by (cases "map_of (invertedIndex idx) t") (simp_all add: postings_def)
    then obtain ids where ids: "map_of (invertedIndex idx) t = Some ids" "i \<in> set ids"
      by blast
    from ids(1) have "(t, ids) \<in> set (invertedIndex idx)" by (rule map_of_SomeD)
    with c ids(2) show "\<exists>c. map_of (chunks idx) i = Some c \<and> t \<in> set (tokenize (content c))"
      by (fastforce simp: indexConsistent_def list_all_iff split: option.splits)
  qed
next
  assume s: "postingsSound idx"
  have "case map_of (chunks idx) i of None \<Rightarrow> False
        | Some c \<Rightarrow> t \<in> set (tokenize (content c))"
    if "(t, ids) \<in> set (invertedIndex idx)" "i \<in> set ids" for t ids i
  proof -
    from assms that(1) have "map_of (invertedIndex idx) t = Some ids" by (rule map_of_is_SomeI)
    with that(2) have "i \<in> set (postings idx t)" by (simp add: postings_def)
    with s have "\<exists>c. map_of (chunks idx) i = Some c \<and> t \<in> set (tokenize (content c))"
      unfolding postingsSound_def by blast
    then show ?thesis by auto
  qed
  then show "indexConsistent idx"
    by (auto simp: indexConsistent_def list_all_iff)
qed

lemma map_of_deletePosting:
  "map_of (deletePosting cid t ix) =
     (case map_of ix t of None \<Rightarrow> map_of ix | Some ids \<Rightarrow> (map_of ix)(t \<mapsto> setDelete cid ids))"
  by (simp add: deletePosting_def update_conv' split: option.splits)

lemma map_of_fold_deletePosting:
  "map_of (fold (deletePosting cid) ts ix) t =
     (if t \<in> set ts then map_option (setDelete cid) (map_of ix t) else map_of ix t)"
  by (induction ts arbitrary: ix)
     (auto simp: map_of_deletePosting setDelete_def split: option.splits)

lemma postings_remove:
  "postings (snd (remove cid idx)) t =
     (case map_of (chunks idx) cid of
        None \<Rightarrow> postings idx t
      | Some c \<Rightarrow> if t \<in> set (tokenize (content c)) then setDelete cid (postings idx t)
                  else postings idx t)"
  by (auto simp: postings_def remove_def map_of_fold_deletePosting setDelete_def
      split: option.splits)

lemma chunks_add: "map_of (chunks (add c idx)) = (map_of (chunks idx))(chunk_id c \<mapsto> c)"
  by (simp add: add_def update_conv')

lemma chunks_remove:
  "map_of (chunks (snd (remove cid idx))) = (map_of (chunks idx))(cid := None)"
  by (auto simp: remove_def delete_conv' split: option.splits)

lemma postingsSound_add:
  assumes "postingsSound idx" "allowedOp (Add c) idx"
  shows "postingsSound (add c idx)"
  unfolding postingsSound_def
proof (intro allI impI)
  fix t i assume i: "i \<in> set (postings (add c idx) t)"
  show "\<exists>c'. map_of (chunks (add c idx)) i = Some c' \<and> t \<in> set (tokenize (content c'))"
  proof (cases "i = chunk_id c")
    case True
    have "t \<in> set (tokenize (content c))"
    proof (cases "t \<in> set (tokenize (content c))")
      case False
      with i True have "chunk_id c \<in> set (postings idx t)" by (simp add: postings_add)
      with assms(1) obtain old where "map_of (chunks idx) (chunk_id c) = Some old"
        "t \<in> set (tokenize (content old))"
        by (auto simp: postingsSound_def)
      with assms(2) show ?thesis by (simp add: allowedOp_def list_all_iff)
    qed
    with True show ?thesis by (simp add: chunks_add)
  next
    case False
    with i have "i \<in> set (postings idx t)"
      by (auto simp: postings_add setAdd_def split: if_splits)
    with assms(1) False show ?thesis by (simp add: postingsSound_def chunks_add)
  qed
qed

lemma postingsSound_remove:
  assumes "postingsSound idx"
  shows "postingsSound (snd (remove cid idx))"
  unfolding postingsSound_def
proof (intro allI impI)
  fix t i assume i: "i \<in> set (postings (snd (remove cid idx)) t)"
  then have old: "i \<in> set (postings idx t)"
    by (auto simp: postings_remove setDelete_def split: option.splits if_splits)
  with assms obtain c where c: "map_of (chunks idx) i = Some c" "t \<in> set (tokenize (content c))"
    by (auto simp: postingsSound_def)
  have "i \<noteq> cid"
  proof
    assume "i = cid"
    with i c show False by (simp add: postings_remove setDelete_def)
  qed
  with c show "\<exists>c. map_of (chunks (snd (remove cid idx))) i = Some c \<and>
      t \<in> set (tokenize (content c))"
    by (simp add: chunks_remove)
qed

lemma postingsSound_clear: "postingsSound (clear idx)"
  by (simp add: postingsSound_def clear_def postings_def)

lemma postingsSound_applyOp:
  "postingsSound idx \<Longrightarrow> allowedOp op idx \<Longrightarrow> postingsSound (applyOp op idx)"
  by (cases op) (simp_all add: postingsSound_add postingsSound_remove postingsSound_clear)

lemma postingsSound_fold:
  "postingsSound idx \<Longrightarrow> disciplined ops idx \<Longrightarrow> postingsSound (fold applyOp ops idx)"
  by (induction ops arbitrary: idx) (simp_all add: postingsSound_applyOp)

lemma postingsSound_newIndex: "postingsSound newIndex"
  by (simp add: postingsSound_def newIndex_def postings_def)

lemma removed_id_gone:
  assumes "postingsSound idx"
  shows "cid \<notin> set (postings (snd (remove cid idx)) t)"
proof
  assume "cid \<in> set (postings (snd (remove cid idx)) t)"
  with postingsSound_remove[OF assms, of cid]
  have "map_of (chunks (snd (remove cid idx))) cid \<noteq> None"
    by (auto simp: postingsSound_def)
  then show False by (simp add: chunks_remove)
qed

text \<open>
  C1, amended: after every sequence of \<open>add\<close>, \<open>remove\<close> and \<open>clear\<close> in which every
  \<open>add\<close> keeps the discipline of updates (the id is absent, or the stored content has no
  token that the new content lacks), a chunk id is in the posting set of a token only if
  the id is in the primary map and the token is among the tokens of the stored content;
  and in such a state \<open>remove(chunkId)\<close> takes the id out of every posting set.
\<close>

theorem consistent_under_discipline:
  assumes "disciplined ops newIndex"
  shows "indexConsistent (runOps ops newIndex) \<and>
         (\<forall>cid t. cid \<notin> set (postings (snd (remove cid (runOps ops newIndex))) t))"
proof -
  have s: "postingsSound (runOps ops newIndex)"
    unfolding runOps_def using postingsSound_newIndex assms by (rule postingsSound_fold)
  have "distinct (map fst (invertedIndex (runOps ops newIndex)))"
    using wellFormed_runOps[of ops] by (simp add: wellFormed_def uniqueKeys_def)
  with s have "indexConsistent (runOps ops newIndex)"
    by (simp add: indexConsistent_iff)
  with s show ?thesis
    by (simp add: removed_id_gone)
qed

text \<open>
  C1 as stated fails: \<open>add\<close> only ever extends posting sets. After the id \<open>c1\<close> is added
  with the content \<open>hello\<close> and again with \<open>world\<close>, the posting set of \<open>hello\<close> still
  holds \<open>c1\<close>, and \<open>remove\<close>, which reads the tokens of \<open>world\<close>, leaves it there.
\<close>

theorem stale_postings_counterexample:
  "\<not> indexConsistent (runOps staleOps newIndex) \<and>
   postings (runOps staleOps newIndex) ''hello'' = [''c1''] \<and>
   map (\<lambda>e. content (snd e)) (chunks (runOps staleOps newIndex)) = [''world''] \<and>
   postings (snd (remove ''c1'' (runOps staleOps newIndex))) ''hello'' = [''c1'']"
  by code_simp

theorem consistent_under_discipline_witness:
  "disciplined (exampleOps @ [Remove ''c1'', Add (exampleChunk ''c1'' ''index'')]) newIndex \<and>
   indexConsistent (runOps (exampleOps @ [Remove ''c1'', Add (exampleChunk ''c1'' ''index'')]) newIndex) \<and>
   postings (runOps (exampleOps @ [Remove ''c1'', Add (exampleChunk ''c1'' ''index'')]) newIndex) ''database'' = []"
proof -
  have d: "disciplined (exampleOps @ [Remove ''c1'', Add (exampleChunk ''c1'' ''index'')]) newIndex"
    by code_simp
  have p: "postings (runOps (exampleOps @ [Remove ''c1'', Add (exampleChunk ''c1'' ''index'')]) newIndex) ''database'' = []"
    by code_simp
  from consistent_under_discipline[OF d] d p show ?thesis by simp
qed

section \<open>Trimming and splitting strings of one character\<close>

lemma trim_replicate: "\<not> isSpace c \<Longrightarrow> trim (replicate n c) = replicate n c"
  by (simp add: trim_def dropWhile_replicate)

lemma isSpace_newline: "isSpace newline"
  by (simp add: isSpace_def newline_def code_unit_def)

lemma trim_replicate_newlines:
  assumes "\<not> isSpace c" and "0 < n"
  shows "trim (replicate n c @ [newline, newline]) = replicate n c"
proof -
  from assms(2) have "c \<in> set (replicate n c)" by simp
  then have "dropWhile isSpace (replicate n c @ [newline, newline]) =
      dropWhile isSpace (replicate n c) @ [newline, newline]"
    using assms(1) by (rule dropWhile_append1)
  with assms(1) show ?thesis
    by (simp add: trim_def dropWhile_replicate isSpace_newline)
qed

lemma splitParagraphs_replicate:
  assumes "\<not> isSpace c" and "0 < n"
  shows "splitParagraphs (replicate n c) = [replicate n c @ [newline, newline]]"
proof -
  from assms(1) have "c \<noteq> newline" using isSpace_newline by auto
  then have "splitRuns (\<lambda>c. c = newline) 2 [] (replicate n c) = [[] @ replicate n c]"
    by (intro splitRuns_no_match) simp
  with assms show ?thesis
    by (simp add: splitParagraphs_def trim_replicate trim_replicate_newlines)
qed

lemma notSpace_A: "\<not> isSpace CHR ''A''"
  by (simp add: isSpace_def code_unit_def)

lemma showNat_0: "showNat 0 = ''0''"
  by code_simp

section \<open>The length of chunks\<close>

lemma length_trim_le: "length (trim s) \<le> length s"
proof -
  have "length (trim s) \<le> length (dropWhile isSpace s)"
    using length_dropWhile_le[of isSpace "rev (dropWhile isSpace s)"] by (simp add: trim_def)
  also have "\<dots> \<le> length s" by (rule length_dropWhile_le)
  finally show ?thesis .
qed

lemma length_sliceFrom_le: "0 < n \<Longrightarrow> int (length (sliceFrom (- n) s)) \<le> n"
  by (auto simp: sliceFrom_def)

lemma content_mkChunk: "content (mkChunk d i text a b) = text"
  by (simp add: mkChunk_def)

lemma chunkLoop_bound:
  assumes "0 < overlap u"
  shows "\<forall>s \<in> set sections. int (length s) \<le> chunkSize u \<Longrightarrow>
    cur \<noteq> [] \<longrightarrow> int (length cur) \<le> chunkSize u + overlap u \<Longrightarrow>
    \<forall>c \<in> set acc. int (length (content c)) \<le> chunkSize u + overlap u \<Longrightarrow>
    \<forall>c \<in> set (chunkLoop u d sections acc cur start i).
       int (length (content c)) \<le> chunkSize u + overlap u"
proof (induction sections arbitrary: acc cur start i)
  case Nil
  show ?case
  proof (cases "trim cur = []")
    case True
    with Nil.prems(3) show ?thesis by simp
  next
    case False
    then have "cur \<noteq> []" by (auto simp: trim_def)
    with Nil.prems(2) have "int (length (trim cur)) \<le> chunkSize u + overlap u"
      using length_trim_le[of cur] by linarith
    with Nil.prems(3) show ?thesis
      by (auto simp: content_mkChunk)
  qed
next
  case (Cons s sections)
  have s: "int (length s) \<le> chunkSize u"
    and rest: "\<forall>s \<in> set sections. int (length s) \<le> chunkSize u"
    using Cons.prems(1) by simp_all
  show ?case
  proof (cases "int (length cur) + int (length s) > chunkSize u \<and> length cur > 0")
    case True
    let ?acc = "acc @ [mkChunk d i (trim cur) start (start + int (length cur))]"
    let ?cur = "sliceFrom (- overlap u) cur @ s"
    from True have eq: "chunkLoop u d (s # sections) acc cur start i =
        chunkLoop u d sections ?acc ?cur (start + int (length cur) - overlap u) (i + 1)"
      by simp
    from True Cons.prems(2) have "int (length (trim cur)) \<le> chunkSize u + overlap u"
      using length_trim_le[of cur] by auto
    with Cons.prems(3)
    have a: "\<forall>c \<in> set ?acc. int (length (content c)) \<le> chunkSize u + overlap u"
      by (auto simp: content_mkChunk)
    have n: "?cur \<noteq> [] \<longrightarrow> int (length ?cur) \<le> chunkSize u + overlap u"
      using length_sliceFrom_le[OF assms, of cur] s by simp
    show ?thesis
      unfolding eq using rest n a by (rule Cons.IH)
  next
    case False
    then have eq: "chunkLoop u d (s # sections) acc cur start i =
        chunkLoop u d sections acc (cur @ s) start i"
      by auto
    from False s assms
    have n: "cur @ s \<noteq> [] \<longrightarrow> int (length (cur @ s)) \<le> chunkSize u + overlap u"
      by auto
    show ?thesis
      unfolding eq using rest n Cons.prems(3) by (rule Cons.IH)
  qed
qed

text \<open>
  C4, amended: for every document and every configuration of an integer \<open>chunkSize\<close> and
  an integer \<open>overlap \<ge> 1\<close> under which no section of the semantic split is longer than
  \<open>chunkSize\<close>, the content of every chunk that \<open>chunk\<close> produces is at most
  \<open>chunkSize + overlap\<close> long.
\<close>

theorem chunk_length_bound:
  assumes "1 \<le> overlap u"
    and "\<forall>s \<in> set (splitSemantically (doc_content d) (doc_type d)). int (length s) \<le> chunkSize u"
  shows "\<forall>c \<in> set (chunkDocument u d). int (length (content c)) \<le> chunkSize u + overlap u"
proof (cases "int (length (doc_content d)) \<le> chunkSize u")
  case True
  with assms(1) show ?thesis
    by (simp add: chunkDocument_def content_mkChunk)
next
  case False
  from assms(1) have pos: "0 < overlap u"
    by simp
  have "\<forall>c \<in> set (chunkLoop u d (splitSemantically (doc_content d) (doc_type d)) [] [] 0 0).
      int (length (content c)) \<le> chunkSize u + overlap u"
    using pos assms(2) by (rule chunkLoop_bound) simp_all
  with False show ?thesis
    by (simp add: chunkDocument_def)
qed

theorem chunk_length_bound_witness:
  "1 \<le> overlap smallChunks \<and>
   list_all (\<lambda>s. int (length s) \<le> chunkSize smallChunks)
     (splitSemantically (doc_content (exampleDocument threeParagraphs))
        (doc_type (exampleDocument threeParagraphs))) \<and>
   map (\<lambda>c. length (content c)) (chunkDocument smallChunks (exampleDocument threeParagraphs))
     = [4, 6, 4] \<and>
   list_all (\<lambda>c. int (length (content c)) \<le> 12)
     (chunkDocument smallChunks (exampleDocument threeParagraphs))"
proof -
  have o: "1 \<le> overlap smallChunks"
    by (simp add: smallChunks_def newChunkingUtils_def)
  have s: "\<forall>s \<in> set (splitSemantically (doc_content (exampleDocument threeParagraphs))
        (doc_type (exampleDocument threeParagraphs))). int (length s) \<le> chunkSize smallChunks"
    by code_simp
  have m: "map (\<lambda>c. length (content c))
      (chunkDocument smallChunks (exampleDocument threeParagraphs)) = [4, 6, 4]"
    by code_simp
  have b: "chunkSize smallChunks + overlap smallChunks = 12"
    by (simp add: smallChunks_def newChunkingUtils_def)
  from chunk_length_bound[OF o s] o s m show ?thesis
    unfolding b list_all_iff by (intro conjI)
qed

text \<open>
  C4 as stated fails: sections are never split, so a chunk is as long as its longest
  section. With \<open>chunkSize = 10\<close> and \<open>overlap = 2\<close> the second of two chunks is 100
  characters long; \<open>long_paragraph_chunks\<close> below gives a chunk of any length \<open>n\<close>, so no
  fixed slack mends the bound.
\<close>

theorem chunk_length_counterexample:
  "map (\<lambda>c. int (length (content c)))
     (chunkDocument smallChunks (exampleDocument (longParagraph 100))) = [3, 100] \<and>
   chunkSize smallChunks + overlap smallChunks = 12"
  by code_simp

lemma notSpace_b: "\<not> isSpace CHR ''b''"
  by (simp add: isSpace_def code_unit_def)

lemma splitParagraphs_longParagraph:
  assumes "0 < n"
  shows "splitParagraphs (longParagraph n) =
    [''aaa'' @ [newline, newline], replicate n CHR ''b'' @ [newline, newline]]"
proof -
  have nl: "CHR ''a'' \<noteq> newline" "CHR ''b'' \<noteq> newline"
    by (simp_all add: newline_def)
  have "splitRuns (\<lambda>c. c = newline) 2 [] (replicate n CHR ''b'') = [[] @ replicate n CHR ''b'']"
    using nl by (intro splitRuns_no_match) simp
  then have "splitRuns (\<lambda>c. c = newline) 2 [] (longParagraph n) = [''aaa'', replicate n CHR ''b'']"
    using nl by (simp add: longParagraph_def dropWhile_replicate takeWhile_replicate)
  moreover have "trim ''aaa'' = ''aaa''"
    by code_simp
  moreover have "trim (''aaa'' @ [newline, newline]) = ''aaa''"
    by code_simp
  ultimately show ?thesis
    using assms notSpace_b
    by (simp add: splitParagraphs_def trim_replicate trim_replicate_newlines)
qed

lemma long_paragraph_chunks:
  assumes "6 \<le> n"
  shows "map (\<lambda>c. length (content c))
    (chunkDocument smallChunks (exampleDocument (longParagraph n))) = [3, n]"
proof -
  have sp: "splitParagraphs (longParagraph n) =
      [''aaa'' @ [newline, newline], replicate n CHR ''b'' @ [newline, newline]]"
    using assms by (intro splitParagraphs_longParagraph) simp
  have len: "length (longParagraph n) = n + 5"
    by (simp add: longParagraph_def)
  have t1: "trim (''aaa'' @ [newline, newline]) = ''aaa''"
    by code_simp
  have s2: "sliceFrom (- 2) (''aaa'' @ [newline, newline]) = [newline, newline]"
    by (simp add: sliceFrom_def)
  have "trim ([newline, newline] @ replicate n CHR ''b'' @ [newline, newline]) =
      trim (replicate n CHR ''b'' @ [newline, newline])"
    by (simp add: trim_def isSpace_newline)
  also have "\<dots> = replicate n CHR ''b''"
    using notSpace_b assms by (intro trim_replicate_newlines) simp_all
  finally have t2: "trim ([newline, newline] @ replicate n CHR ''b'' @ [newline, newline]) =
      replicate n CHR ''b''" .
  have "chunkDocument smallChunks (exampleDocument (longParagraph n)) =
      chunkLoop smallChunks (exampleDocument (longParagraph n))
        [''aaa'' @ [newline, newline], replicate n CHR ''b'' @ [newline, newline]] [] [] 0 0"
    using assms
    by (simp add: chunkDocument_def exampleDocument_def len smallChunks_def
        newChunkingUtils_def splitSemantically_def sp)
  also have "map (\<lambda>c. length (content c)) \<dots> = [3, n]"
    using assms t1 t2 s2
    by (simp add: smallChunks_def newChunkingUtils_def content_mkChunk)
  finally show ?thesis .
qed

text \<open>
  With \<open>overlap = 0\<close> the bound fails even for short sections: \<open>slice(-0)\<close> is the whole
  string, so every chunk starts with a copy of the chunk before it.
\<close>

lemma overlap_zero_chunks_grow:
  "map length (splitSemantically fourParagraphs Text) = [8, 8, 8, 8] \<and>
   map (\<lambda>c. length (content c))
     (chunkDocument (newChunkingUtils (Some 10) (Some 0)) (exampleDocument fourParagraphs))
     = [6, 14, 22, 30]"
  by code_simp

section \<open>The example of 1500 characters\<close>

lemma chunk_1500_value:
  "chunkDocument (newChunkingUtils (Some 1000) (Some 200))
     (exampleDocument (replicate 1500 CHR ''A'')) =
   [\<lparr>chunk_id = ''d1-chunk-0'', documentId = ''d1'', content = replicate 1500 CHR ''A'',
     title = None, startOffset = 0, endOffset = 1502, metadata = exampleMetadata\<rparr>]"
proof -
  have sp: "splitParagraphs (replicate 1500 CHR ''A'') =
      [replicate 1500 CHR ''A'' @ [newline, newline]]"
    using notSpace_A by (rule splitParagraphs_replicate) simp
  have tr: "trim (replicate 1500 CHR ''A'' @ [newline, newline]) = replicate 1500 CHR ''A''"
    using notSpace_A by (rule trim_replicate_newlines) simp
  show ?thesis
    by (simp add: chunkDocument_def newChunkingUtils_def exampleDocument_def
        splitSemantically_def sp tr mkChunk_def showNat_0 del: showNat.simps)
qed

text \<open>
  C2, amended: for the document \<open>{id: "d1", type: "text", content: 1500 times "A",
  metadata: {source: "s"}}\<close> and \<open>chunkSize = 1000\<close>, \<open>overlap = 200\<close>, \<open>chunk\<close> returns
  exactly 1 chunk, \<open>d1-chunk-0\<close>, with \<open>startOffset\<close> 0 and the whole content: the content
  is one paragraph, and a paragraph is never split.
\<close>

theorem chunk_1500_one_chunk:
  "\<exists>c. chunkDocument (newChunkingUtils (Some 1000) (Some 200))
          (exampleDocument (replicate 1500 CHR ''A'')) = [c] \<and>
        chunk_id c = ''d1-chunk-0'' \<and> startOffset c = 0 \<and>
        content c = replicate 1500 CHR ''A''"
  by (simp add: chunk_1500_value)

text \<open>C2 as stated fails: there are not 2 chunks, and no chunk ends at 1000.\<close>

theorem chunk_1500_counterexample:
  "\<not> (length (chunkDocument (newChunkingUtils (Some 1000) (Some 200))
          (exampleDocument (replicate 1500 CHR ''A''))) = 2 \<and>
       startOffset (chunkDocument (newChunkingUtils (Some 1000) (Some 200))
          (exampleDocument (replicate 1500 CHR ''A'')) ! 0) = 0 \<and>
       endOffset (chunkDocument (newChunkingUtils (Some 1000) (Some 200))
          (exampleDocument (replicate 1500 CHR ''A'')) ! 0) = 1000 \<and>
       take 200 (content (chunkDocument (newChunkingUtils (Some 1000) (Some 200))
          (exampleDocument (replicate 1500 CHR ''A'')) ! 1)) =
       sliceFrom (- 200) (content (chunkDocument (newChunkingUtils (Some 1000) (Some 200))
          (exampleDocument (replicate 1500 CHR ''A'')) ! 0)))"
  by (simp add: chunk_1500_value)

end
